theory Spec2Isabelle
  imports Complex_Main "HOL-Library.AList"
begin

section \<open>Simple Split Bill: the allocation and settlement core of app.py\<close>

text \<open>
  The session state of app.py and the functions of its CORE LOGIC part, as a shallow
  embedding.

  Numbers. Every quantity, price and amount of the program is a Python float. Here a
  float is a rational number: the four operations are exact, and the special values
  (NaN, the infinities) and the rounding of binary floating point are outside the model.
  Everything proved below is a statement about the program's arithmetic read exactly.

  Dictionaries. A Python dict keeps its keys in insertion order, so a dict is an
  association list: \<open>map_of\<close> looks a key up, \<open>AList.update\<close> overwrites the value of a
  key in place or appends a new key at the end, as \<open>d[k] = v\<close> does. The keys of a dict
  are distinct.

  Exceptions and error messages. A function of app.py either returns or raises. A raise
  is \<open>Inl\<close> of the exception; the error messages that \<open>assign_share\<close> and \<open>set_share\<close>
  return are values of the type \<open>message\<close>, one constructor for each message text, with
  the values the text is formatted from.
\<close>

subsection \<open>The session state\<close>

text \<open>
  \<open>st.session_state\<close>: \<open>items\<close> maps an item name to its \<open>qty\<close> and \<open>total_price\<close>,
  \<open>people\<close> maps a participant's name to the email, \<open>shares[person][item]\<close> is the
  quantity assigned, \<open>tax\<close> is the tax to split. The entries \<open>initiator\<close> and
  \<open>restaurant\<close>, which only the text of the summaries reads, are left out.
\<close>

record item_data =
  qty :: rat
  total_price :: rat

type_synonym row = "(string \<times> rat) list"

record state =
  items :: "(string \<times> item_data) list"
  people :: "(string \<times> string) list"
  shares :: "(string \<times> row) list"
  tax :: rat

text \<open>
  The exceptions: \<open>KeyError k\<close> from a dict read of a missing key \<open>k\<close>, and
  \<open>ValueError\<close> for what \<open>float\<close> raises on an argument that is no number.
\<close>

datatype exn = KeyError string | ValueError

datatype message =
    Select_person_item
  | Item_not_found string
  | Qty_must_be_number
  | Qty_must_be_ge_0
  | Qty_must_be_gt_0
  | Not_enough_remaining string rat
  | Not_enough_available string rat

text \<open>
  \<open>Select_person_item\<close> is "Select person & item.", \<open>Item_not_found i\<close> is
  "Item 'i' not found.", \<open>Qty_must_be_number\<close> is "Qty must be a number.",
  \<open>Qty_must_be_ge_0\<close> is "Qty must be >= 0.", \<open>Qty_must_be_gt_0\<close> is "Qty must be > 0.",
  \<open>Not_enough_remaining i r\<close> is "Not enough 'i' left. Remaining: r" and
  \<open>Not_enough_available i a\<close> is "Not enough 'i' left. Available: a", where the text
  shows \<open>a\<close> as \<open>fmt_num\<close> formats it.
\<close>

subsection \<open>Dictionary reads\<close>

text \<open>\<open>d.get(k, default)\<close>.\<close>

definition dict_get :: "('k \<times> 'v) list \<Rightarrow> 'k \<Rightarrow> 'v \<Rightarrow> 'v" where
  "dict_get d k dflt = (case map_of d k of None \<Rightarrow> dflt | Some v \<Rightarrow> v)"

text \<open>
  \<open>shares\<close> is a \<open>defaultdict\<close> of \<open>defaultdict(float)\<close>: reading \<open>shares[person]\<close> for
  a person with no row inserts an empty row at the end and returns it.
  \<open>shares_getitem\<close> is that read with its effect on the state; \<open>row_of\<close> is the row it
  returns.
\<close>

definition row_of :: "state \<Rightarrow> string \<Rightarrow> row" where
  "row_of st person = dict_get (shares st) person []"

definition shares_getitem :: "state \<Rightarrow> string \<Rightarrow> state \<times> row" where
  "shares_getitem st person =
     (case map_of (shares st) person of
        Some r \<Rightarrow> (st, r)
      | None \<Rightarrow> (st\<lparr>shares := shares st @ [(person, [])]\<rparr>, []))"

subsection \<open>Catalog\<close>

text \<open>
  \<open>unit_price\<close>: \<open>items[item]\<close> raises KeyError for an unknown item; \<open>if data["qty"]\<close>
  is the truth value of a float, that is \<open>qty \<noteq> 0\<close>.
\<close>

definition unit_price :: "state \<Rightarrow> string \<Rightarrow> exn + rat" where
  "unit_price st item =
     (case map_of (items st) item of
        None \<Rightarrow> Inl (KeyError item)
      | Some d \<Rightarrow> Inr (if qty d \<noteq> 0 then total_price d / qty d else 0))"

text \<open>
  \<open>remaining_qty\<close>: \<open>used_qty\<close> is its local \<open>used\<close>. The sum runs over the keys of
  \<open>shares\<close> (so each \<open>shares[p]\<close> is a row that exists) and is computed before
  \<open>items[item]\<close> is read.
\<close>

definition used_qty :: "state \<Rightarrow> string \<Rightarrow> rat" where
  "used_qty st item =
     sum_list (map (\<lambda>p. dict_get (row_of st p) item 0) (map fst (shares st)))"

definition remaining_qty :: "state \<Rightarrow> string \<Rightarrow> exn + rat" where
  "remaining_qty st item =
     (let used = used_qty st item
      in case map_of (items st) item of
           None \<Rightarrow> Inl (KeyError item)
         | Some d \<Rightarrow> Inr (qty d - used))"

subsection \<open>Allocation ledger\<close>

text \<open>
  The quantity argument of \<open>assign_share\<close> and \<open>set_share\<close> is any Python value,
  and both functions start from \<open>float(qty)\<close>, which returns a float or raises
  (ValueError for a string that is no number, TypeError for \<open>None\<close>). \<open>Number x\<close> is
  an argument that \<open>float\<close> converts to \<open>x\<close>, \<open>Non_numeric\<close> an argument on which
  \<open>float\<close> raises, such as the string "abc"; \<open>float_py\<close> is \<open>float\<close> on them.
\<close>

datatype qty_arg = Number rat | Non_numeric

fun float_py :: "qty_arg \<Rightarrow> rat option" where
  "float_py (Number x) = Some x"
| "float_py Non_numeric = None"

text \<open>
  A call returns the state after it together with what Python returns or raises: the
  result \<open>Inr None\<close> is \<open>return None\<close> (success), \<open>Inr (Some m)\<close> is the error message
  \<open>m\<close> returned, \<open>Inl e\<close> is the exception \<open>e\<close> raised. \<open>assign_share\<close> reads
  \<open>shares[person]\<close> only in its last statement; \<open>set_share\<close> reads it for \<open>current\<close>,
  before the capacity check.
\<close>

definition assign_share ::
  "state \<Rightarrow> string \<Rightarrow> string \<Rightarrow> qty_arg \<Rightarrow> state \<times> (exn + message option)"
where
  "assign_share st person item q =
     (if person = [] \<or> item = [] then (st, Inr (Some Select_person_item))
      else if map_of (items st) item = None then (st, Inr (Some (Item_not_found item)))
      else case float_py q of
        None \<Rightarrow> (st, Inl ValueError)
      | Some qty_f \<Rightarrow>
          if qty_f \<le> 0 then (st, Inr (Some Qty_must_be_gt_0))
          else
            (case remaining_qty st item of
               Inl e \<Rightarrow> (st, Inl e)
             | Inr remaining \<Rightarrow>
                 if qty_f > remaining
                 then (st, Inr (Some (Not_enough_remaining item remaining)))
                 else
                   let (st1, r) = shares_getitem st person
                   in (st1\<lparr>shares :=
                         AList.update person (AList.update item (dict_get r item 0 + qty_f) r)
                           (shares st1)\<rparr>,
                       Inr None)))"

definition set_share ::
  "state \<Rightarrow> string \<Rightarrow> string \<Rightarrow> qty_arg \<Rightarrow> state \<times> (exn + message option)"
where
  "set_share st person item q =
     (if person = [] \<or> item = [] then (st, Inr (Some Select_person_item))
      else if map_of (items st) item = None then (st, Inr (Some (Item_not_found item)))
      else case float_py q of
        None \<Rightarrow> (st, Inr (Some Qty_must_be_number))
      | Some qty_f \<Rightarrow>
          if qty_f < 0 then (st, Inr (Some Qty_must_be_ge_0))
          else
            let (st1, r) = shares_getitem st person;
                current = dict_get r item 0
            in (case remaining_qty st1 item of
                  Inl e \<Rightarrow> (st1, Inl e)
                | Inr remaining \<Rightarrow>
                    let available = remaining + current
                    in if qty_f > available
                       then (st1, Inr (Some (Not_enough_available item available)))
                       else (st1\<lparr>shares :=
                               AList.update person (AList.update item qty_f r) (shares st1)\<rparr>,
                             Inr None)))"

subsection \<open>Settlement\<close>

text \<open>
  \<open>round(x, 2)\<close>: to the nearest multiple of 1/100, a tie going to the even one. The
  model rounds the rational number. (Python rounds the binary value of the float, so a
  float whose decimal literal looks like a tie, such as 2.675, is none for it.)
\<close>

definition round_half_even :: "rat \<Rightarrow> int" where
  "round_half_even x =
     (let f = \<lfloor>x\<rfloor>; d = x - of_int f
      in if d < 1 / 2 then f
         else if 1 / 2 < d then f + 1
         else if even f then f else f + 1)"

definition round2 :: "rat \<Rightarrow> rat" where
  "round2 x = of_int (round_half_even (x * 100)) / 100"

text \<open>
  \<open>person_total\<close>: the loop over \<open>shares[person].items()\<close>, with the running \<open>total\<close> as
  accumulator \<open>tot\<close>; it stops at the first \<open>unit_price\<close> that raises.
\<close>

fun person_total_loop :: "state \<Rightarrow> row \<Rightarrow> rat \<Rightarrow> exn + rat" where
  "person_total_loop st [] tot = Inr tot"
| "person_total_loop st ((item, q) # rest) tot =
     (case unit_price st item of
        Inl e \<Rightarrow> Inl e
      | Inr up \<Rightarrow> person_total_loop st rest (tot + q * up))"

definition person_total :: "state \<Rightarrow> string \<Rightarrow> exn + rat" where
  "person_total st person = person_total_loop st (row_of st person) 0"

text \<open>
  \<open>any(shares[p].values())\<close>: some stored quantity is a true float, that is, not 0.
\<close>

definition any_share :: "state \<Rightarrow> string \<Rightarrow> bool" where
  "any_share st p = list_ex (\<lambda>q. q \<noteq> 0) (map snd (row_of st p))"

text \<open>
  The comprehension
  \<open>{p: round(person_total(p), 2) for p in people.keys() if any(shares[p].values())}\<close>
  of \<open>all_totals\<close>, over the list of the keys that are left.
\<close>

fun subtotals_of :: "state \<Rightarrow> string list \<Rightarrow> exn + (string \<times> rat) list" where
  "subtotals_of st [] = Inr []"
| "subtotals_of st (p # ps) =
     (if any_share st p then
        (case person_total st p of
           Inl e \<Rightarrow> Inl e
         | Inr t \<Rightarrow>
             (case subtotals_of st ps of
                Inl e \<Rightarrow> Inl e
              | Inr rest \<Rightarrow> Inr ((p, round2 t) # rest)))
      else subtotals_of st ps)"

text \<open>
  \<open>all_totals\<close>. \<open>all_totals_detail\<close> is the loop over \<open>subtotals.items()\<close> with the
  locals of each iteration: the participant, \<open>sub\<close>, \<open>tax_share\<close> and the value stored
  in \<open>totals[p]\<close>; \<open>all_totals\<close> is the dict \<open>totals\<close> that is returned.
\<close>

definition all_totals_detail :: "state \<Rightarrow> exn + (string \<times> rat \<times> rat \<times> rat) list" where
  "all_totals_detail st =
     (case subtotals_of st (map fst (people st)) of
        Inl e \<Rightarrow> Inl e
      | Inr subtotals \<Rightarrow>
          let total_sub = sum_list (map snd subtotals);
              tax_total = tax st
          in Inr (map (\<lambda>(p, sub).
                    let tax_share = (if total_sub > 0 then sub / total_sub * tax_total else 0)
                    in (p, sub, tax_share, round2 (sub + tax_share)))
                  subtotals))"

definition all_totals :: "state \<Rightarrow> exn + (string \<times> rat) list" where
  "all_totals st =
     (case all_totals_detail st of
        Inl e \<Rightarrow> Inl e
      | Inr rows \<Rightarrow> Inr (map (\<lambda>(p, sub, tax_share, tot). (p, tot)) rows))"

text \<open>
  The tax split of \<open>build_email_body\<close> (the locals \<open>subtotal\<close>, \<open>total_all\<close>,
  \<open>tax_total\<close> and \<open>tax_share\<close> of the function; the rest of it formats text).
\<close>

fun total_all_of :: "state \<Rightarrow> string list \<Rightarrow> exn + rat" where
  "total_all_of st [] = Inr 0"
| "total_all_of st (p # ps) =
     (if any_share st p then
        (case person_total st p of
           Inl e \<Rightarrow> Inl e
         | Inr t \<Rightarrow>
             (case total_all_of st ps of
                Inl e \<Rightarrow> Inl e
              | Inr s \<Rightarrow> Inr (round2 t + s)))
      else total_all_of st ps)"

definition email_tax_share :: "state \<Rightarrow> string \<Rightarrow> exn + rat" where
  "email_tax_share st person =
     (case person_total st person of
        Inl e \<Rightarrow> Inl e
      | Inr t \<Rightarrow>
          let subtotal = round2 t
          in (case total_all_of st (map fst (people st)) of
                Inl e \<Rightarrow> Inl e
              | Inr total_all \<Rightarrow>
                  let tax_total = tax st
                  in Inr (if total_all > 0 then subtotal / total_all * tax_total else 0)))"

subsection \<open>Sequences of calls and the conservation invariant\<close>

text \<open>
  The quantity of an item is conserved within a tolerance \<open>eps\<close> when the quantities
  assigned of it, summed over the rows of \<open>shares\<close> as \<open>remaining_qty\<close> sums them, are at
  most the item's \<open>qty\<close> plus \<open>eps\<close>. The invariant of the spec, \<open>conservation\<close>, has the
  tolerance \<open>1e-9\<close>.
\<close>

definition item_conserved :: "rat \<Rightarrow> state \<Rightarrow> string \<Rightarrow> bool" where
  "item_conserved eps st i =
     (case map_of (items st) i of
        None \<Rightarrow> True
      | Some d \<Rightarrow> used_qty st i \<le> qty d + eps)"

definition conserved_within :: "rat \<Rightarrow> state \<Rightarrow> bool" where
  "conserved_within eps st \<longleftrightarrow> (\<forall>i \<in> set (map fst (items st)). item_conserved eps st i)"

definition conservation :: "state \<Rightarrow> bool" where
  "conservation st \<longleftrightarrow> conserved_within (1 / 10 ^ 9) st"

text \<open>
  The rows of \<open>shares\<close> name known items when every key of every row is a key of
  \<open>items\<close>; \<open>unit_price\<close> then raises for none of them.
\<close>

definition rows_known :: "state \<Rightarrow> bool" where
  "rows_known st \<longleftrightarrow>
     (\<forall>(p, r) \<in> set (shares st). \<forall>i \<in> set (map fst r). map_of (items st) i \<noteq> None)"

datatype call = Set_share string string qty_arg | Assign_share string string qty_arg

fun do_call :: "state \<Rightarrow> call \<Rightarrow> state \<times> (exn + message option)" where
  "do_call st (Set_share person item q) = set_share st person item q"
| "do_call st (Assign_share person item q) = assign_share st person item q"

text \<open>
  \<open>run_calls st cs\<close> is the state after the calls \<open>cs\<close>, made one after the other from
  \<open>st\<close>, when every one of them succeeds (returns \<open>None\<close>); it is \<open>None\<close> when one of them
  returns an error message or raises.
\<close>

fun run_calls :: "state \<Rightarrow> call list \<Rightarrow> state option" where
  "run_calls st [] = Some st"
| "run_calls st (c # cs) =
     (case do_call st c of
        (st', Inr None) \<Rightarrow> run_calls st' cs
      | (st', Inr (Some m)) \<Rightarrow> None
      | (st', Inl e) \<Rightarrow> None)"

subsection \<open>The states of the scenarios\<close>

text \<open>
  One item "Pizza" of quantity 2 (at any total price), for the participants "A" and "B",
  each with no email and with the empty row that \<open>add_person\<close> gives.
\<close>

definition pizza_state :: "rat \<Rightarrow> state" where
  "pizza_state price =
     \<lparr>items = [(''Pizza'', \<lparr>qty = 2, total_price = price\<rparr>)],
      people = [(''A'', []), (''B'', [])],
      shares = [(''A'', []), (''B'', [])],
      tax = 0\<rparr>"

text \<open>
  The scenario of the spec: "Burger" (1 for 10000) and "Fries" (1 for 5000), Ann and Bo,
  a tax of 1500; in \<open>burger_state\<close> Ann has taken the burger and Bo the fries.
\<close>

definition burger_start :: state where
  "burger_start =
     \<lparr>items = [(''Burger'', \<lparr>qty = 1, total_price = 10000\<rparr>),
               (''Fries'', \<lparr>qty = 1, total_price = 5000\<rparr>)],
      people = [(''Ann'', []), (''Bo'', [])],
      shares = [(''Ann'', []), (''Bo'', [])],
      tax = 1500\<rparr>"

definition burger_state :: state where
  "burger_state =
     burger_start\<lparr>shares := [(''Ann'', [(''Burger'', 1)]), (''Bo'', [(''Fries'', 1)])]\<rparr>"

text \<open>A cake of three pieces for 3, one piece each for A, B and C, and a tax of 1.\<close>

definition cake_state :: state where
  "cake_state =
     \<lparr>items = [(''Cake'', \<lparr>qty = 3, total_price = 3\<rparr>)],
      people = [(''A'', []), (''B'', []), (''C'', [])],
      shares = [(''A'', [(''Cake'', 1)]), (''B'', [(''Cake'', 1)]), (''C'', [(''Cake'', 1)])],
      tax = 1\<rparr>"

text \<open>Tap water, free of charge, of which A has a glass, and a tax of 5.\<close>

definition water_state :: state where
  "water_state =
     \<lparr>items = [(''Water'', \<lparr>qty = 1, total_price = 0\<rparr>)],
      people = [(''A'', [])],
      shares = [(''A'', [(''Water'', 1)])],
      tax = 5\<rparr>"

text \<open>The pizza for 30, of which A has one piece; the share of B has been set to 0.\<close>

definition slice_state :: state where
  "slice_state =
     (pizza_state 30)\<lparr>shares := [(''A'', [(''Pizza'', 1)]), (''B'', [(''Pizza'', 0)])]\<rparr>"

subsection \<open>The settlement in the words of the spec\<close>

text \<open>
  The participants that \<open>all_totals\<close> includes, the subtotal of a participant rounded to
  two decimals (\<open>round2(subtotal(p))\<close>), and \<open>totalSub\<close>, the sum of these over the
  included participants.
\<close>

definition included :: "state \<Rightarrow> string list" where
  "included st = filter (any_share st) (map fst (people st))"

definition rounded_subtotal :: "state \<Rightarrow> string \<Rightarrow> rat" where
  "rounded_subtotal st p = (case person_total st p of Inl e \<Rightarrow> 0 | Inr t \<Rightarrow> round2 t)"

definition total_sub_of :: "state \<Rightarrow> rat" where
  "total_sub_of st = sum_list (map (rounded_subtotal st) (included st))"

section \<open>Properties\<close>

subsection \<open>Reading and updating the shares\<close>

lemma lookup_keys_entries:
  "distinct (map fst sh) \<Longrightarrow>
     map (\<lambda>p. h (dict_get sh p dflt)) (map fst sh) = map (\<lambda>(p, r). h r) sh"
proof (induction sh)
  case Nil
  then show ?case by simp
next
  case (Cons a sh)
  obtain k v where a: "a = (k, v)" by (cases a)
  from Cons.prems a have k: "k \<notin> fst ` set sh" and d: "distinct (map fst sh)" by auto
  have "map (\<lambda>p. h (dict_get ((k, v) # sh) p dflt)) (map fst sh)
        = map (\<lambda>p. h (dict_get sh p dflt)) (map fst sh)"
    using k by (intro map_cong) (auto simp: dict_get_def)
  with Cons.IH [OF d] show ?case by (simp add: a dict_get_def)
qed

lemma used_qty_entries:
  "distinct (map fst (shares st)) \<Longrightarrow>
     used_qty st item = sum_list (map (\<lambda>(p, r). dict_get r item 0) (shares st))"
  unfolding used_qty_def row_of_def
  by (simp only: lookup_keys_entries [of "shares st" "\<lambda>r. dict_get r item 0" "[]"])

lemma sum_entries_update:
  fixes g :: "'v \<Rightarrow> rat"
  shows "map_of sh p = Some r \<Longrightarrow>
     sum_list (map (\<lambda>(p, r). g r) (AList.update p r' sh))
       = sum_list (map (\<lambda>(p, r). g r) sh) - g r + g r'"
  by (induction sh) (auto split: if_splits)

lemma dict_get_update:
  "dict_get (AList.update k v r) k' dflt = (if k' = k then v else dict_get r k' dflt)"
  by (simp add: dict_get_def update_conv')

lemma shares_getitem_props:
  assumes "shares_getitem st p = (st1, r)"
  shows "map_of (shares st1) p = Some r" "items st1 = items st" "people st1 = people st"
    "tax st1 = tax st"
    "distinct (map fst (shares st)) \<Longrightarrow> distinct (map fst (shares st1))"
    "distinct (map fst (shares st)) \<Longrightarrow> used_qty st1 i = used_qty st i"
proof -
  show "map_of (shares st1) p = Some r" "items st1 = items st" "people st1 = people st"
    "tax st1 = tax st"
    using assms by (auto simp: shares_getitem_def map_add_def split: option.splits)
  show d1: "distinct (map fst (shares st1))" if "distinct (map fst (shares st))"
    using assms that by (auto simp: shares_getitem_def map_of_eq_None_iff split: option.splits)
  show "used_qty st1 i = used_qty st i" if d: "distinct (map fst (shares st))"
  proof -
    have "sum_list (map (\<lambda>(p, r). dict_get r i 0) (shares st1))
          = sum_list (map (\<lambda>(p, r). dict_get r i (0::rat)) (shares st))"
      using assms by (auto simp: shares_getitem_def dict_get_def split: option.splits)
    then show ?thesis using used_qty_entries [OF d] used_qty_entries [OF d1 [OF d]] by simp
  qed
qed

lemma used_qty_row_update:
  assumes d: "distinct (map fst (shares st))" and r: "map_of (shares st) p = Some r"
  shows "used_qty (st\<lparr>shares := AList.update p r' (shares st)\<rparr>) j
           = used_qty st j - dict_get r j 0 + dict_get r' j 0"
proof -
  have "distinct (map fst (shares (st\<lparr>shares := AList.update p r' (shares st)\<rparr>)))"
    using d by (simp add: distinct_update)
  then show ?thesis
    using used_qty_entries [OF d, of j] sum_entries_update [OF r, of "\<lambda>r. dict_get r j 0" r']
    by (simp add: used_qty_entries)
qed

subsection \<open>Conservation\<close>

lemma conserved_within_cong:
  "items st' = items st \<Longrightarrow> (\<And>i. used_qty st' i = used_qty st i) \<Longrightarrow>
     conserved_within eps st' = conserved_within eps st"
  by (simp add: conserved_within_def item_conserved_def cong: option.case_cong)

lemma conserved_within_row_update:
  assumes d: "distinct (map fst (shares st))" and c: "conserved_within eps st"
    and eps: "0 \<le> eps"
    and r: "map_of (shares st) p = Some r"
    and it: "map_of (items st) i = Some dd"
    and le: "used_qty st i - dict_get r i 0 + v \<le> qty dd"
  shows "conserved_within eps (st\<lparr>shares := AList.update p (AList.update i v r) (shares st)\<rparr>)"
proof -
  let ?st' = "st\<lparr>shares := AList.update p (AList.update i v r) (shares st)\<rparr>"
  have u: "used_qty ?st' j = (if j = i then used_qty st i - dict_get r i 0 + v else used_qty st j)"
    for j
    using used_qty_row_update [OF d r, of "AList.update i v r" j]
    by (simp add: dict_get_update)
  have "item_conserved eps ?st' j" if "item_conserved eps st j" for j
  proof (cases "j = i")
    case True
    then show ?thesis using it le eps u [of i] by (simp add: item_conserved_def)
  next
    case False
    then show ?thesis
      using that u [of j] by (simp add: item_conserved_def cong: option.case_cong)
  qed
  then show ?thesis using c by (simp add: conserved_within_def)
qed

lemma set_share_preserves:
  assumes d: "distinct (map fst (shares st))" and c: "conserved_within eps st"
    and eps: "0 \<le> eps"
    and s: "set_share st p i q = (st', res)"
  shows "distinct (map fst (shares st')) \<and> conserved_within eps st'"
proof -
  obtain st1 r where g: "shares_getitem st p = (st1, r)" by (cases "shares_getitem st p")
  note props = shares_getitem_props [OF g]
  have d1: "distinct (map fst (shares st1))" using props(5) d by simp
  have c1: "conserved_within eps st1"
    using conserved_within_cong [of st1 st] props(2) props(6) d c by simp
  show ?thesis
  proof (cases "st' = st \<or> st' = st1")
    case True
    then show ?thesis using d c d1 c1 by auto
  next
    case False
    with s g obtain qty_f dd where
        it: "map_of (items st1) i = Some dd"
      and le: "\<not> qty_f > qty dd - used_qty st1 i + dict_get r i 0"
      and st': "st' = st1\<lparr>shares := AList.update p (AList.update i qty_f r) (shares st1)\<rparr>"
      by (auto simp: set_share_def remaining_qty_def Let_def props(2)
          split: if_splits option.splits sum.splits)
    have "conserved_within eps st'"
      unfolding st'
      using le by (intro conserved_within_row_update [OF d1 c1 eps props(1) it]) simp
    moreover have "distinct (map fst (shares st'))"
      using d1 by (simp add: st' distinct_update)
    ultimately show ?thesis by simp
  qed
qed

lemma assign_share_preserves:
  assumes d: "distinct (map fst (shares st))" and c: "conserved_within eps st"
    and eps: "0 \<le> eps"
    and s: "assign_share st p i q = (st', res)"
  shows "distinct (map fst (shares st')) \<and> conserved_within eps st'"
proof -
  obtain st1 r where g: "shares_getitem st p = (st1, r)" by (cases "shares_getitem st p")
  note props = shares_getitem_props [OF g]
  have d1: "distinct (map fst (shares st1))" using props(5) d by simp
  have c1: "conserved_within eps st1"
    using conserved_within_cong [of st1 st] props(2) props(6) d c by simp
  show ?thesis
  proof (cases "st' = st")
    case True
    then show ?thesis using d c by auto
  next
    case False
    with s g obtain qty_f dd where
        it: "map_of (items st) i = Some dd"
      and le: "\<not> qty_f > qty dd - used_qty st i"
      and st': "st' = st1\<lparr>shares :=
                   AList.update p (AList.update i (dict_get r i 0 + qty_f) r) (shares st1)\<rparr>"
      by (auto simp: assign_share_def remaining_qty_def Let_def
          split: if_splits option.splits sum.splits)
    have "conserved_within eps st'"
      unfolding st'
      using le it props(6) [OF d, of i]
      by (intro conserved_within_row_update [OF d1 c1 eps props(1), of i dd])
        (simp_all add: props(2))
    moreover have "distinct (map fst (shares st'))"
      using d1 by (simp add: st' distinct_update)
    ultimately show ?thesis by simp
  qed
qed

lemma run_calls_preserves:
  assumes "distinct (map fst (shares st))" and "conserved_within eps st" and "0 \<le> eps"
    and "run_calls st cs = Some st'"
  shows "distinct (map fst (shares st')) \<and> conserved_within eps st'"
  using assms
proof (induction cs arbitrary: st)
  case Nil
  then show ?case by simp
next
  case (Cons c cs)
  obtain st1 res where step: "do_call st c = (st1, res)"
    by (cases "do_call st c")
  have "distinct (map fst (shares st1)) \<and> conserved_within eps st1"
  proof (cases c)
    case (Set_share p i q)
    then show ?thesis using step set_share_preserves [OF Cons.prems(1,2,3)] by simp
  next
    case (Assign_share p i q)
    then show ?thesis using step assign_share_preserves [OF Cons.prems(1,2,3)] by simp
  qed
  moreover have "run_calls st1 cs = Some st'"
    using Cons.prems(4) step by (auto split: sum.splits option.splits)
  ultimately show ?case using Cons.IH [OF _ _ Cons.prems(3)] by blast
qed

text \<open>
  In the exact arithmetic of this model the tolerance is not needed: from a state in which
  no item is over-assigned, no sequence of successful calls over-assigns one.
\<close>

lemma conservation_exact:
  assumes "distinct (map fst (shares st))" and "conserved_within 0 st"
    and "run_calls st cs = Some st'"
  shows "conserved_within 0 st'"
  using run_calls_preserves [OF assms(1,2) _ assms(3)] by simp

text \<open>
  Claim C1 (conservation). From a state whose \<open>shares\<close> is a dict (distinct keys) and in
  which every item is conserved, after any sequence of \<open>set_share\<close> and \<open>assign_share\<close>
  calls that all succeed, every item is conserved: the quantities assigned of it sum to at
  most its quantity plus \<open>1e-9\<close>.
\<close>

theorem conservation_invariant:
  assumes "distinct (map fst (shares st))" and "conservation st"
    and "run_calls st cs = Some st'"
  shows "conservation st'"
proof -
  have "conserved_within (1 / 10 ^ 9) st" using assms(2) by (simp add: conservation_def)
  from run_calls_preserves [OF assms(1) this _ assms(3)] show ?thesis
    by (simp add: conservation_def)
qed

theorem conservation_invariant_witness:
  "distinct (map fst (shares (pizza_state 30)))
   \<and> conservation (pizza_state 30)
   \<and> run_calls (pizza_state 30)
       [Set_share ''A'' ''Pizza'' (Number 2), Set_share ''A'' ''Pizza'' (Number 1),
        Assign_share ''B'' ''Pizza'' (Number (1 / 2)), Assign_share ''C'' ''Pizza'' (Number (1 / 2))]
     = Some ((pizza_state 30)\<lparr>shares :=
         [(''A'', [(''Pizza'', 1)]), (''B'', [(''Pizza'', 1 / 2)]), (''C'', [(''Pizza'', 1 / 2)])]\<rparr>)
   \<and> conservation ((pizza_state 30)\<lparr>shares :=
         [(''A'', [(''Pizza'', 1)]), (''B'', [(''Pizza'', 1 / 2)]), (''C'', [(''Pizza'', 1 / 2)])]\<rparr>)"
proof -
  have run: "run_calls (pizza_state 30)
       [Set_share ''A'' ''Pizza'' (Number 2), Set_share ''A'' ''Pizza'' (Number 1),
        Assign_share ''B'' ''Pizza'' (Number (1 / 2)), Assign_share ''C'' ''Pizza'' (Number (1 / 2))]
     = Some ((pizza_state 30)\<lparr>shares :=
         [(''A'', [(''Pizza'', 1)]), (''B'', [(''Pizza'', 1 / 2)]), (''C'', [(''Pizza'', 1 / 2)])]\<rparr>)"
    by (simp add: pizza_state_def set_share_def assign_share_def shares_getitem_def
        remaining_qty_def used_qty_def row_of_def dict_get_def)
  have d: "distinct (map fst (shares (pizza_state 30)))"
    by (simp add: pizza_state_def)
  have c: "conservation (pizza_state 30)"
    by (simp add: pizza_state_def conservation_def conserved_within_def item_conserved_def
        used_qty_def row_of_def dict_get_def)
  from conservation_invariant [OF d c run] d c run show ?thesis by simp
qed

subsection \<open>What \<open>set_share\<close> returns, and the state it leaves\<close>

text \<open>
  The row that \<open>shares[person]\<close> may insert is empty, so the reads that follow it see the
  quantities of the state before the call: the result of \<open>set_share\<close> is a function of
  that state.
\<close>

lemma used_qty_append_empty_row:
  assumes "map_of (shares st) p = None"
  shows "used_qty (st\<lparr>shares := shares st @ [(p, [])]\<rparr>) i = used_qty st i"
proof -
  have "dict_get (shares st @ [(p, [])]) k [] = dict_get (shares st) k []" for k
    using assms by (cases "k = p") (auto simp: dict_get_def map_add_def split: option.splits)
  then show ?thesis
    using assms by (simp add: used_qty_def row_of_def dict_get_def)
qed

lemma shares_getitem_read:
  assumes "shares_getitem st p = (st1, r)"
  shows "r = row_of st p" "used_qty st1 i = used_qty st i"
    "remaining_qty st1 i = remaining_qty st i"
proof -
  show r: "r = row_of st p"
    using assms by (auto simp: shares_getitem_def row_of_def dict_get_def split: option.splits)
  show u: "used_qty st1 i = used_qty st i"
    using assms used_qty_append_empty_row [of st p i]
    by (auto simp: shares_getitem_def split: option.splits)
  show "remaining_qty st1 i = remaining_qty st i"
    using assms u by (auto simp: remaining_qty_def shares_getitem_def split: option.splits)
qed

lemma set_share_result:
  "snd (set_share st person item q) =
     (if person = [] \<or> item = [] then Inr (Some Select_person_item)
      else if map_of (items st) item = None then Inr (Some (Item_not_found item))
      else case float_py q of
        None \<Rightarrow> Inr (Some Qty_must_be_number)
      | Some x \<Rightarrow>
          if x < 0 then Inr (Some Qty_must_be_ge_0)
          else (case remaining_qty st item of
                  Inl e \<Rightarrow> Inl e
                | Inr rem \<Rightarrow>
                    if rem + dict_get (row_of st person) item 0 < x
                    then Inr (Some (Not_enough_available item
                                      (rem + dict_get (row_of st person) item 0)))
                    else Inr None))"
proof -
  obtain st1 r where g: "shares_getitem st person = (st1, r)"
    by (cases "shares_getitem st person")
  show ?thesis
    using shares_getitem_read [OF g]
    by (simp add: set_share_def g Let_def split: option.splits sum.splits)
qed

lemma set_share_state:
  "fst (set_share st person item q) =
     (if person = [] \<or> item = [] \<or> map_of (items st) item = None then st
      else case float_py q of
        None \<Rightarrow> st
      | Some x \<Rightarrow>
          if x < 0 then st
          else if snd (set_share st person item q) = Inr None
               then (fst (shares_getitem st person))\<lparr>shares :=
                      AList.update person (AList.update item x (row_of st person))
                        (shares (fst (shares_getitem st person)))\<rparr>
               else fst (shares_getitem st person))"
proof -
  obtain st1 r where g: "shares_getitem st person = (st1, r)"
    by (cases "shares_getitem st person")
  show ?thesis
    using shares_getitem_read(1) [OF g]
    by (simp add: set_share_def g Let_def split: option.splits sum.splits)
qed


lemma in_keys_iff: "k \<in> fst ` set d \<longleftrightarrow> map_of d k \<noteq> None"
  by (simp add: map_of_eq_None_iff)


text \<open>
  Claim C3 (validation order of \<open>set_share\<close>), as the code has it. The checks, in order:
  an empty participant or item name returns "Select person & item."; then an item that is
  not in \<open>items\<close> returns "Item ... not found."; then a quantity that \<open>float\<close> does not
  convert returns "Qty must be a number."; then a negative quantity returns
  "Qty must be >= 0."; then a quantity above \<open>remaining_qty(item)\<close> plus the participant's
  current quantity of the item returns "Not enough ... left. Available: ..." with that
  amount; every other call succeeds. The first four leave the state as it was. Whether the
  participant is in \<open>people\<close> is never looked at: the result is the same for any \<open>people\<close>.
\<close>

theorem set_share_validation_order:
  "(person = [] \<or> item = [] \<longrightarrow>
      set_share st person item q = (st, Inr (Some Select_person_item)))
   \<and> (person \<noteq> [] \<and> item \<noteq> [] \<and> item \<notin> set (map fst (items st)) \<longrightarrow>
      set_share st person item q = (st, Inr (Some (Item_not_found item))))
   \<and> (person \<noteq> [] \<and> item \<noteq> [] \<and> item \<in> set (map fst (items st)) \<and> float_py q = None \<longrightarrow>
      set_share st person item q = (st, Inr (Some Qty_must_be_number)))
   \<and> (person \<noteq> [] \<and> item \<noteq> [] \<and> item \<in> set (map fst (items st)) \<and> float_py q = Some x
        \<and> x < 0 \<longrightarrow>
      set_share st person item q = (st, Inr (Some Qty_must_be_ge_0)))
   \<and> (person \<noteq> [] \<and> item \<noteq> [] \<and> item \<in> set (map fst (items st)) \<and> float_py q = Some x
        \<and> 0 \<le> x \<and> remaining_qty st item = Inr rem
        \<and> rem + dict_get (row_of st person) item 0 < x \<longrightarrow>
      snd (set_share st person item q) =
        Inr (Some (Not_enough_available item (rem + dict_get (row_of st person) item 0))))
   \<and> (person \<noteq> [] \<and> item \<noteq> [] \<and> item \<in> set (map fst (items st)) \<and> float_py q = Some x
        \<and> 0 \<le> x \<and> remaining_qty st item = Inr rem
        \<and> x \<le> rem + dict_get (row_of st person) item 0 \<longrightarrow>
      snd (set_share st person item q) = Inr None)
   \<and> snd (set_share (st\<lparr>people := ps\<rparr>) person item q) = snd (set_share st person item q)"
proof -
  have a: "set_share st person item q = (st, Inr (Some Select_person_item))"
    if "person = [] \<or> item = []"
    using that by (auto simp: set_share_def)
  have b: "set_share st person item q = (st, Inr (Some (Item_not_found item)))"
    if "person \<noteq> [] \<and> item \<noteq> [] \<and> item \<notin> set (map fst (items st))"
    using that by (simp add: set_share_def in_keys_iff)
  have c: "set_share st person item q = (st, Inr (Some Qty_must_be_number))"
    if "person \<noteq> [] \<and> item \<noteq> [] \<and> item \<in> set (map fst (items st)) \<and> float_py q = None"
    using that by (simp add: set_share_def in_keys_iff)
  have d: "set_share st person item q = (st, Inr (Some Qty_must_be_ge_0))"
    if "person \<noteq> [] \<and> item \<noteq> [] \<and> item \<in> set (map fst (items st)) \<and> float_py q = Some x
        \<and> x < 0"
    using that by (simp add: set_share_def in_keys_iff)
  have e: "snd (set_share st person item q) =
        Inr (Some (Not_enough_available item (rem + dict_get (row_of st person) item 0)))"
    if "person \<noteq> [] \<and> item \<noteq> [] \<and> item \<in> set (map fst (items st)) \<and> float_py q = Some x
        \<and> 0 \<le> x \<and> remaining_qty st item = Inr rem
        \<and> rem + dict_get (row_of st person) item 0 < x"
    using that by (simp add: set_share_result in_keys_iff)
  have f: "snd (set_share st person item q) = Inr None"
    if "person \<noteq> [] \<and> item \<noteq> [] \<and> item \<in> set (map fst (items st)) \<and> float_py q = Some x
        \<and> 0 \<le> x \<and> remaining_qty st item = Inr rem
        \<and> x \<le> rem + dict_get (row_of st person) item 0"
    using that by (simp add: set_share_result in_keys_iff)
  have "row_of (st\<lparr>people := ps\<rparr>) = row_of st"
    by (simp add: row_of_def fun_eq_iff)
  moreover from this have "remaining_qty (st\<lparr>people := ps\<rparr>) = remaining_qty st"
    by (simp add: remaining_qty_def used_qty_def fun_eq_iff)
  ultimately have g:
    "snd (set_share (st\<lparr>people := ps\<rparr>) person item q) = snd (set_share st person item q)"
    by (simp add: set_share_result cong: if_cong option.case_cong sum.case_cong)
  from a b c d e f g show ?thesis by blast
qed


theorem set_share_validation_order_witness:
  "set_share (pizza_state 30) [] ''Pizza'' (Number 1)
     = (pizza_state 30, Inr (Some Select_person_item))
   \<and> set_share (pizza_state 30) ''A'' ''Cola'' (Number 1)
     = (pizza_state 30, Inr (Some (Item_not_found ''Cola'')))
   \<and> set_share (pizza_state 30) ''A'' ''Pizza'' Non_numeric
     = (pizza_state 30, Inr (Some Qty_must_be_number))
   \<and> set_share (pizza_state 30) ''A'' ''Pizza'' (Number (- 1))
     = (pizza_state 30, Inr (Some Qty_must_be_ge_0))
   \<and> snd (set_share (pizza_state 30) ''A'' ''Pizza'' (Number 3))
     = Inr (Some (Not_enough_available ''Pizza'' 2))
   \<and> snd (set_share (pizza_state 30) ''A'' ''Pizza'' (Number 2)) = Inr None"
  using set_share_validation_order [of "[]" "''Pizza''" "pizza_state 30" "Number 1"]
    set_share_validation_order [of "''A''" "''Cola''" "pizza_state 30" "Number 1"]
    set_share_validation_order [of "''A''" "''Pizza''" "pizza_state 30" Non_numeric]
    set_share_validation_order [of "''A''" "''Pizza''" "pizza_state 30" "Number (- 1)" "- 1"]
    set_share_validation_order [of "''A''" "''Pizza''" "pizza_state 30" "Number 3" 3 2]
    set_share_validation_order [of "''A''" "''Pizza''" "pizza_state 30" "Number 2" 2 2]
  by (simp add: pizza_state_def remaining_qty_def used_qty_def row_of_def dict_get_def)

text \<open>
  The claim as the spec has it fails: a participant who is neither in \<open>people\<close> nor in
  \<open>shares\<close> is given a share, with no not-found error.
\<close>

theorem set_share_unknown_participant_counterexample:
  "''Ghost'' \<notin> set (map fst (people (pizza_state 30)))
   \<and> snd (set_share (pizza_state 30) ''Ghost'' ''Pizza'' (Number 1)) = Inr None"
  by (simp add: pizza_state_def set_share_result remaining_qty_def used_qty_def row_of_def
      dict_get_def)


text \<open>
  Claim C6 (atomicity of \<open>set_share\<close>), as the code has it. When \<open>set_share\<close> does not
  succeed, \<open>items\<close>, \<open>people\<close> and \<open>tax\<close> are as before the call and so is every
  assigned quantity (a missing entry counting as 0). \<open>shares\<close> itself, keys and rows, is
  as before too, with one exception: when the error is the capacity error and the
  participant had no row, \<open>shares\<close> has exactly one more entry, at its end: that
  participant with an empty row.
\<close>

theorem set_share_error_state:
  assumes "set_share st person item q = (st', res)" and "res \<noteq> Inr None"
  shows "items st' = items st \<and> people st' = people st \<and> tax st' = tax st
         \<and> shares st' =
             (if map_of (shares st) person = None
                 \<and> (\<exists>a. res = Inr (Some (Not_enough_available item a)))
              then shares st @ [(person, [])]
              else shares st)
         \<and> (\<forall>p i. dict_get (row_of st' p) i 0 = dict_get (row_of st p) i 0)"
proof -
  obtain st1 r where g: "shares_getitem st person = (st1, r)"
    by (cases "shares_getitem st person")
  have st1: "st1 = (if map_of (shares st) person = None
                    then st\<lparr>shares := shares st @ [(person, [])]\<rparr> else st)"
    using g by (auto simp: shares_getitem_def split: option.splits)
  have st': "st' = (if \<exists>a. res = Inr (Some (Not_enough_available item a)) then st1 else st)"
    using assms
    by (auto simp: set_share_def g Let_def remaining_qty_def shares_getitem_props(2) [OF g]
        split: if_splits option.splits sum.splits)
  have "dict_get (row_of st1 p) i 0 = dict_get (row_of st p) i 0" for p i
    unfolding st1 by (cases "p = person")
      (auto simp: row_of_def dict_get_def map_add_def split: option.splits)
  with st' st1 show ?thesis by auto
qed

theorem set_share_error_state_witness:
  "set_share (pizza_state 30) ''B'' ''Pizza'' (Number 3)
     = (pizza_state 30, Inr (Some (Not_enough_available ''Pizza'' 2)))
   \<and> shares (pizza_state 30) = [(''A'', []), (''B'', [])]
   \<and> set_share (pizza_state 30) ''Ghost'' ''Pizza'' Non_numeric
     = (pizza_state 30, Inr (Some Qty_must_be_number))
   \<and> snd (set_share (pizza_state 30) ''Ghost'' ''Pizza'' (Number 5))
     = Inr (Some (Not_enough_available ''Pizza'' 2))
   \<and> shares (fst (set_share (pizza_state 30) ''Ghost'' ''Pizza'' (Number 5)))
     = [(''A'', []), (''B'', []), (''Ghost'', [])]
   \<and> items (fst (set_share (pizza_state 30) ''Ghost'' ''Pizza'' (Number 5)))
     = items (pizza_state 30)"
proof -
  have b: "set_share (pizza_state 30) ''B'' ''Pizza'' (Number 3)
     = (pizza_state 30, Inr (Some (Not_enough_available ''Pizza'' 2)))"
    by (simp add: pizza_state_def set_share_def shares_getitem_def remaining_qty_def
        used_qty_def row_of_def dict_get_def)
  have n: "set_share (pizza_state 30) ''Ghost'' ''Pizza'' Non_numeric
     = (pizza_state 30, Inr (Some Qty_must_be_number))"
    by (simp add: pizza_state_def set_share_def)
  have g: "snd (set_share (pizza_state 30) ''Ghost'' ''Pizza'' (Number 5))
     = Inr (Some (Not_enough_available ''Pizza'' 2))"
    by (simp add: pizza_state_def set_share_def shares_getitem_def remaining_qty_def
        used_qty_def row_of_def dict_get_def)
  have sh: "shares (pizza_state 30) = [(''A'', []), (''B'', [])]"
    by (simp add: pizza_state_def)
  have c: "set_share (pizza_state 30) ''Ghost'' ''Pizza'' (Number 5)
     = (fst (set_share (pizza_state 30) ''Ghost'' ''Pizza'' (Number 5)),
        snd (set_share (pizza_state 30) ''Ghost'' ''Pizza'' (Number 5)))"
    by simp
  have e: "snd (set_share (pizza_state 30) ''Ghost'' ''Pizza'' (Number 5)) \<noteq> Inr None"
    by (simp add: g)
  from set_share_error_state [OF b] set_share_error_state [OF n]
    set_share_error_state [OF c e] b n g sh
  show ?thesis by simp
qed

text \<open>
  The claim as the spec has it fails: a call that returns the capacity error for a
  participant without a row leaves \<open>shares\<close> with one more key.
\<close>

theorem set_share_atomicity_counterexample:
  "snd (set_share (pizza_state 30) ''Ghost'' ''Pizza'' (Number 5))
     = Inr (Some (Not_enough_available ''Pizza'' 2))
   \<and> map fst (shares (pizza_state 30)) = [''A'', ''B'']
   \<and> map fst (shares (fst (set_share (pizza_state 30) ''Ghost'' ''Pizza'' (Number 5))))
       = [''A'', ''B'', ''Ghost'']"
  by (simp add: pizza_state_def set_share_def shares_getitem_def remaining_qty_def
      used_qty_def row_of_def dict_get_def)


text \<open>
  Claim C4 (capacity rejection, with the hold released). With item "Pizza" of quantity 2:
  \<open>set_share("A", "Pizza", 2)\<close> succeeds; then \<open>set_share("B", "Pizza", 0.5)\<close> returns the
  capacity error with available 0 and changes nothing; then \<open>set_share("A", "Pizza", 1)\<close>
  succeeds; then \<open>set_share("B", "Pizza", 1)\<close> succeeds.
\<close>

theorem capacity_rejection_scenario:
  "set_share (pizza_state price) ''A'' ''Pizza'' (Number 2)
     = ((pizza_state price)\<lparr>shares := [(''A'', [(''Pizza'', 2)]), (''B'', [])]\<rparr>, Inr None)
   \<and> set_share ((pizza_state price)\<lparr>shares := [(''A'', [(''Pizza'', 2)]), (''B'', [])]\<rparr>)
        ''B'' ''Pizza'' (Number (1 / 2))
     = ((pizza_state price)\<lparr>shares := [(''A'', [(''Pizza'', 2)]), (''B'', [])]\<rparr>,
        Inr (Some (Not_enough_available ''Pizza'' 0)))
   \<and> set_share ((pizza_state price)\<lparr>shares := [(''A'', [(''Pizza'', 2)]), (''B'', [])]\<rparr>)
        ''A'' ''Pizza'' (Number 1)
     = ((pizza_state price)\<lparr>shares := [(''A'', [(''Pizza'', 1)]), (''B'', [])]\<rparr>, Inr None)
   \<and> set_share ((pizza_state price)\<lparr>shares := [(''A'', [(''Pizza'', 1)]), (''B'', [])]\<rparr>)
        ''B'' ''Pizza'' (Number 1)
     = ((pizza_state price)\<lparr>shares := [(''A'', [(''Pizza'', 1)]), (''B'', [(''Pizza'', 1)])]\<rparr>,
        Inr None)"
  by (simp add: pizza_state_def set_share_def shares_getitem_def remaining_qty_def
      used_qty_def row_of_def dict_get_def)


text \<open>
  Why the reduction passes: the participant's own quantity is added back to what remains
  before the comparison, so where nothing is over-assigned (the remaining quantity is not
  negative) any quantity from 0 to the current one is accepted.
\<close>

lemma set_share_reduction:
  assumes "person \<noteq> []" and "item \<noteq> []" and "remaining_qty st item = Inr rem"
    and "0 \<le> rem" and "0 \<le> x" and "x \<le> dict_get (row_of st person) item 0"
  shows "snd (set_share st person item (Number x)) = Inr None"
proof -
  from assms(3) have "map_of (items st) item \<noteq> None"
    by (auto simp: remaining_qty_def split: option.splits)
  with assms show ?thesis by (simp add: set_share_result)
qed

text \<open>
  \<open>set_share\<close> never raises, and \<open>assign_share\<close> raises exactly when it gets as far as
  \<open>float(qty)\<close> with an argument that is no number.
\<close>

lemma set_share_never_raises: "snd (set_share st person item q) \<noteq> Inl e"
  by (auto simp: set_share_result remaining_qty_def split: option.splits)

lemma assign_share_raises_iff:
  "snd (assign_share st person item q) = Inl e \<longleftrightarrow>
     person \<noteq> [] \<and> item \<noteq> [] \<and> map_of (items st) item \<noteq> None
     \<and> q = Non_numeric \<and> e = ValueError"
proof (cases q)
  case (Number x)
  then show ?thesis
    by (auto simp: assign_share_def remaining_qty_def Let_def split: option.splits prod.splits)
next
  case Non_numeric
  then show ?thesis by (auto simp: assign_share_def)
qed

text \<open>
  Claim C7 (no uncontrolled faults) fails on \<open>assign_share\<close>: its \<open>float(qty)\<close> is not
  inside a \<open>try\<close>, so an argument that is no number raises, where \<open>set_share\<close> returns
  "Qty must be a number." for the same argument.
\<close>

theorem assign_share_raises_on_non_numeric:
  "assign_share (pizza_state 30) ''A'' ''Pizza'' Non_numeric = (pizza_state 30, Inl ValueError)
   \<and> set_share (pizza_state 30) ''A'' ''Pizza'' Non_numeric
       = (pizza_state 30, Inr (Some Qty_must_be_number))"
  by (simp add: pizza_state_def assign_share_def set_share_def)

subsection \<open>Unit price\<close>

text \<open>
  Claim C8 (\<open>unit_price\<close>), as the code has it: for an item of \<open>items\<close> with a positive
  quantity the result is total price / quantity, for one with quantity 0 it is 0, and for
  a name that is not in \<open>items\<close> the dict read raises KeyError.
\<close>

theorem unit_price_cases:
  "(map_of (items st) item = Some d \<and> 0 < qty d \<longrightarrow>
      unit_price st item = Inr (total_price d / qty d))
   \<and> (map_of (items st) item = Some d \<and> qty d = 0 \<longrightarrow> unit_price st item = Inr 0)
   \<and> (map_of (items st) item = None \<longrightarrow> unit_price st item = Inl (KeyError item))"
  by (simp add: unit_price_def)


theorem unit_price_cases_witness:
  "unit_price (pizza_state 30) ''Pizza'' = Inr 15
   \<and> unit_price ((pizza_state 30)\<lparr>items := [(''Water'', \<lparr>qty = 0, total_price = 0\<rparr>)]\<rparr>) ''Water''
       = Inr 0
   \<and> unit_price (pizza_state 30) ''Cola'' = Inl (KeyError ''Cola'')"
  using unit_price_cases [of "pizza_state 30" "''Pizza''" "\<lparr>qty = 2, total_price = 30\<rparr>"]
    unit_price_cases [of "(pizza_state 30)\<lparr>items := [(''Water'', \<lparr>qty = 0, total_price = 0\<rparr>)]\<rparr>"
      "''Water''" "\<lparr>qty = 0, total_price = 0\<rparr>"]
    unit_price_cases [of "pizza_state 30" "''Cola''"]
  by (simp add: pizza_state_def)


text \<open>
  The claim as the spec has it fails: for an unknown item \<open>unit_price\<close> does not return 0.
\<close>

theorem unit_price_unknown_counterexample:
  "map_of (items (pizza_state 30)) ''Cola'' = None
   \<and> unit_price (pizza_state 30) ''Cola'' \<noteq> Inr 0"
  by (simp add: pizza_state_def unit_price_def)


subsection \<open>Settlement\<close>

lemma round_half_even_of_int: "round_half_even (of_int n) = n"
  by (simp add: round_half_even_def)

lemma round2_idem: "round2 (round2 x) = round2 x"
  by (simp add: round2_def round_half_even_of_int)

lemma subtotals_of_Inr:
  "subtotals_of st ps = Inr subs \<Longrightarrow>
     subs = map (\<lambda>p. (p, rounded_subtotal st p)) (filter (any_share st) ps)
     \<and> (\<forall>p \<in> set (filter (any_share st) ps). \<exists>t. person_total st p = Inr t)"
proof (induction ps arbitrary: subs)
  case Nil
  then show ?case by simp
next
  case (Cons p ps)
  show ?case
  proof (cases "any_share st p")
    case True
    with Cons.prems obtain t rest where
      t: "person_total st p = Inr t" and rest: "subtotals_of st ps = Inr rest"
      and subs: "subs = (p, round2 t) # rest"
      by (auto split: sum.splits)
    from Cons.IH [OF rest] t subs True show ?thesis
      by (simp add: rounded_subtotal_def)
  next
    case False
    with Cons.prems have "subtotals_of st ps = Inr subs" by simp
    from Cons.IH [OF this] False show ?thesis by simp
  qed
qed

lemma subtotals_of_total:
  "(\<forall>p \<in> set (filter (any_share st) ps). \<exists>t. person_total st p = Inr t) \<Longrightarrow>
     \<exists>subs. subtotals_of st ps = Inr subs"
  by (induction ps) auto

lemma total_all_of_Inr:
  "subtotals_of st ps = Inr subs \<Longrightarrow> total_all_of st ps = Inr (sum_list (map snd subs))"
proof (induction ps arbitrary: subs)
  case Nil
  then show ?case by simp
next
  case (Cons p ps)
  show ?case
  proof (cases "any_share st p")
    case True
    with Cons.prems obtain t rest where
      t: "person_total st p = Inr t" and rest: "subtotals_of st ps = Inr rest"
      and subs: "subs = (p, round2 t) # rest"
      by (auto split: sum.splits)
    from Cons.IH [OF rest] t subs True show ?thesis by simp
  next
    case False
    with Cons.prems have "subtotals_of st ps = Inr subs" by simp
    from Cons.IH [OF this] False show ?thesis by simp
  qed
qed

lemma all_totals_detail_Inr:
  assumes "all_totals_detail st = Inr rows"
  shows "rows = map (\<lambda>p. let sub = rounded_subtotal st p;
                            total_sub = sum_list (map (rounded_subtotal st) (included st));
                            tax_share = (if 0 < total_sub then sub / total_sub * tax st else 0)
                        in (p, sub, tax_share, round2 (sub + tax_share)))
                 (included st)"
    and "\<forall>p \<in> set (included st). \<exists>t. person_total st p = Inr t"
    and "total_all_of st (map fst (people st))
           = Inr (sum_list (map (rounded_subtotal st) (included st)))"
proof -
  from assms obtain subs where subs: "subtotals_of st (map fst (people st)) = Inr subs"
    and rows: "rows = map (\<lambda>(p, sub).
           let tax_share = (if sum_list (map snd subs) > 0
                            then sub / sum_list (map snd subs) * tax st else 0)
           in (p, sub, tax_share, round2 (sub + tax_share))) subs"
    by (auto simp: all_totals_detail_def Let_def split: sum.splits)
  note s = subtotals_of_Inr [OF subs]
  have sm: "map snd subs = map (rounded_subtotal st) (included st)"
    using s by (simp add: included_def comp_def)
  show "rows = map (\<lambda>p. let sub = rounded_subtotal st p;
                            total_sub = sum_list (map (rounded_subtotal st) (included st));
                            tax_share = (if 0 < total_sub then sub / total_sub * tax st else 0)
                        in (p, sub, tax_share, round2 (sub + tax_share)))
                 (included st)"
    unfolding rows sm using s by (simp add: included_def comp_def Let_def)
  show "\<forall>p \<in> set (included st). \<exists>t. person_total st p = Inr t"
    using s by (simp add: included_def)
  show "total_all_of st (map fst (people st))
           = Inr (sum_list (map (rounded_subtotal st) (included st)))"
    using total_all_of_Inr [OF subs] sm by simp
qed



lemmas eval_defs =
  all_totals_def all_totals_detail_def any_share_def row_of_def dict_get_def person_total_def
  unit_price_def round2_def round_half_even_def included_def rounded_subtotal_def
  total_sub_of_def email_tax_share_def


lemma burger_state_reached:
  "run_calls burger_start
     [Assign_share ''Ann'' ''Burger'' (Number 1), Assign_share ''Bo'' ''Fries'' (Number 1)]
   = Some burger_state"
  by (simp add: burger_state_def burger_start_def assign_share_def shares_getitem_def
      remaining_qty_def used_qty_def row_of_def dict_get_def)

text \<open>
  \<open>all_totals\<close> returns (no \<open>unit_price\<close> raises) in every state whose rows name known
  items, and the successful calls of \<open>set_share\<close> and \<open>assign_share\<close> keep the rows so.
\<close>

lemma row_of_known:
  assumes "rows_known st" and "i \<in> set (map fst (row_of st p))"
  shows "map_of (items st) i \<noteq> None"
proof (cases "map_of (shares st) p")
  case None
  with assms(2) show ?thesis by (simp add: row_of_def dict_get_def)
next
  case (Some r)
  then have "(p, r) \<in> set (shares st)" by (rule map_of_SomeD)
  moreover from Some assms(2) have "i \<in> set (map fst r)" by (simp add: row_of_def dict_get_def)
  ultimately show ?thesis using assms(1) by (auto simp: rows_known_def)
qed

lemma person_total_loop_returns:
  "\<forall>i \<in> set (map fst r). map_of (items st) i \<noteq> None \<Longrightarrow>
     \<exists>t. person_total_loop st r acc = Inr t"
proof (induction r arbitrary: acc)
  case Nil
  then show ?case by simp
next
  case (Cons a r)
  obtain i q where a: "a = (i, q)" by (cases a)
  from Cons.prems a obtain d where "map_of (items st) i = Some d" by auto
  then have "unit_price st i = Inr (if qty d \<noteq> 0 then total_price d / qty d else 0)"
    by (simp add: unit_price_def)
  with Cons a show ?case by simp
qed

lemma all_totals_returns:
  assumes "rows_known st"
  shows "\<exists>totals. all_totals st = Inr totals"
proof -
  have "\<exists>t. person_total st p = Inr t" for p
    unfolding person_total_def
    using row_of_known [OF assms] by (intro person_total_loop_returns) blast
  then obtain subs where "subtotals_of st (map fst (people st)) = Inr subs"
    using subtotals_of_total [of st "map fst (people st)"] by blast
  then show ?thesis by (simp add: all_totals_def all_totals_detail_def Let_def)
qed

lemma set_update_subset: "set (AList.update k v al) \<subseteq> insert (k, v) (set al)"
  by (induction al) auto

lemma rows_known_row_update:
  assumes k: "rows_known st" and r: "map_of (shares st) p = Some r"
    and i: "map_of (items st) i \<noteq> None"
  shows "rows_known (st\<lparr>shares := AList.update p (AList.update i v r) (shares st)\<rparr>)"
proof -
  have old: "\<forall>j \<in> set (map fst r). map_of (items st) j \<noteq> None"
    using k map_of_SomeD [OF r] by (auto simp: rows_known_def)
  have new: "\<forall>j \<in> set (map fst (AList.update i v r)). map_of (items st) j \<noteq> None"
    using old i dom_update [of i v r] by auto
  have "map_of (items st) j \<noteq> None"
    if e: "(p', r') \<in> set (AList.update p (AList.update i v r) (shares st))"
      and j: "j \<in> set (map fst r')" for p' r' j
  proof -
    from e set_update_subset [of p "AList.update i v r" "shares st"]
    have "(p', r') = (p, AList.update i v r) \<or> (p', r') \<in> set (shares st)" by auto
    then show ?thesis
    proof
      assume "(p', r') = (p, AList.update i v r)"
      with new j show ?thesis by blast
    next
      assume "(p', r') \<in> set (shares st)"
      with k j show ?thesis unfolding rows_known_def by blast
    qed
  qed
  then show ?thesis unfolding rows_known_def by (simp del: set_map) blast
qed

lemma shares_getitem_rows_known:
  "shares_getitem st p = (st1, r) \<Longrightarrow> rows_known st \<Longrightarrow> rows_known st1"
  by (fastforce simp: shares_getitem_def rows_known_def split: option.splits)

lemma do_call_rows_known:
  assumes "rows_known st" and "do_call st c = (st', res)"
  shows "rows_known st' \<and> people st' = people st \<and> items st' = items st"
proof -
  obtain p i q where c: "c = Set_share p i q \<or> c = Assign_share p i q" by (cases c) auto
  obtain st1 r where g: "shares_getitem st p = (st1, r)" by (cases "shares_getitem st p")
  note props = shares_getitem_props(1-3) [OF g]
  note k1 = shares_getitem_rows_known [OF g assms(1)]
  from c assms(2) g
  have "st' = st \<or> st' = st1
        \<or> (\<exists>v. map_of (items st) i \<noteq> None
              \<and> st' = st1\<lparr>shares := AList.update p (AList.update i v r) (shares st1)\<rparr>)"
    by (auto simp: set_share_def assign_share_def Let_def
        split: if_splits option.splits sum.splits)
  then show ?thesis
    using assms(1) k1 props rows_known_row_update [OF k1 props(1), of i] by auto
qed

lemma all_totals_returns_after_calls:
  assumes "rows_known st" and "run_calls st cs = Some st'"
  shows "\<exists>totals. all_totals st' = Inr totals"
proof -
  have "rows_known st'"
    using assms
  proof (induction cs arbitrary: st)
    case Nil
    then show ?case by simp
  next
    case (Cons c cs)
    obtain st1 res where step: "do_call st c = (st1, res)" by (cases "do_call st c")
    with Cons.prems(2) have "run_calls st1 cs = Some st'"
      by (auto split: sum.splits option.splits)
    with Cons.IH do_call_rows_known [OF Cons.prems(1) step] show ?case by blast
  qed
  then show ?thesis by (rule all_totals_returns)
qed

text \<open>
  \<open>person_total\<close>, \<open>all_totals\<close> and \<open>build_email_body\<close> read \<open>shares[p]\<close> as well. The
  empty row that such a read inserts for a participant without one changes nothing that
  they return, which is why they are modelled by the values they return. (After
  \<open>add_person\<close> every participant of \<open>people\<close> has a row, and no row is inserted.)
\<close>

lemma row_of_after_getitem: "row_of (fst (shares_getitem st q)) p = row_of st p"
  by (cases "p = q")
    (auto simp: shares_getitem_def row_of_def dict_get_def map_add_def split: option.splits)

lemma person_total_loop_items:
  "items st' = items st \<Longrightarrow> person_total_loop st' r acc = person_total_loop st r acc"
  by (induction r arbitrary: acc) (auto simp: unit_price_def split: option.splits)

lemma returns_after_getitem:
  "person_total (fst (shares_getitem st q)) p = person_total st p"
  "all_totals (fst (shares_getitem st q)) = all_totals st"
  "email_tax_share (fst (shares_getitem st q)) p = email_tax_share st p"
proof -
  let ?st1 = "fst (shares_getitem st q)"
  have same: "items ?st1 = items st" "people ?st1 = people st" "tax ?st1 = tax st"
    by (auto simp: shares_getitem_def split: option.splits)
  show pt: "person_total ?st1 p = person_total st p" for p
    by (simp add: person_total_def row_of_after_getitem person_total_loop_items [OF same(1)])
  have any: "any_share ?st1 p = any_share st p" for p
    by (simp add: any_share_def row_of_after_getitem)
  have "subtotals_of ?st1 ps = subtotals_of st ps" for ps
    by (induction ps) (simp_all add: pt any cong: sum.case_cong)
  then show "all_totals ?st1 = all_totals st"
    by (simp add: all_totals_def all_totals_detail_def same cong: sum.case_cong)
  have "total_all_of ?st1 ps = total_all_of st ps" for ps
    by (induction ps) (simp_all add: pt any cong: sum.case_cong)
  then show "email_tax_share ?st1 p = email_tax_share st p"
    by (simp add: email_tax_share_def pt same cong: sum.case_cong)
qed

text \<open>
  Claim C2 (tax distribution of \<open>all_totals\<close>), as the code has it. When \<open>all_totals\<close>
  returns, its participants are the included ones, in the order of \<open>people\<close>; for each of
  them \<open>sub\<close> is the subtotal rounded to two decimals, the tax share is
  \<open>sub / totalSub * tax\<close> when \<open>totalSub > 0\<close> and 0 when \<open>totalSub = 0\<close>, and the total
  that is returned is \<open>sub\<close> plus the tax share, rounded to two decimals. In the scenario
  of the spec the subtotals are 10000 and 5000, the tax shares 1000 and 500 and the totals
  11000 and 5500.
\<close>

theorem all_totals_tax_distribution:
  "(all_totals_detail st = Inr rows \<longrightarrow>
      map fst rows = included st
      \<and> (\<forall>(p, sub, tax_share, tot) \<in> set rows.
            (\<exists>t. person_total st p = Inr t \<and> sub = round2 t)
          \<and> (0 < total_sub_of st \<longrightarrow> tax_share = sub / total_sub_of st * tax st)
          \<and> (total_sub_of st = 0 \<longrightarrow> tax_share = 0)
          \<and> tot = round2 (sub + tax_share))
      \<and> all_totals st = Inr (map (\<lambda>(p, sub, tax_share, tot). (p, tot)) rows))
   \<and> person_total burger_state ''Ann'' = Inr 10000
   \<and> person_total burger_state ''Bo'' = Inr 5000
   \<and> all_totals_detail burger_state
       = Inr [(''Ann'', 10000, 1000, 11000), (''Bo'', 5000, 500, 5500)]
   \<and> all_totals burger_state = Inr [(''Ann'', 11000), (''Bo'', 5500)]"
proof -
  have general: "map fst rows = included st
      \<and> (\<forall>(p, sub, tax_share, tot) \<in> set rows.
            (\<exists>t. person_total st p = Inr t \<and> sub = round2 t)
          \<and> (0 < total_sub_of st \<longrightarrow> tax_share = sub / total_sub_of st * tax st)
          \<and> (total_sub_of st = 0 \<longrightarrow> tax_share = 0)
          \<and> tot = round2 (sub + tax_share))
      \<and> all_totals st = Inr (map (\<lambda>(p, sub, tax_share, tot). (p, tot)) rows)"
    if d: "all_totals_detail st = Inr rows"
  proof -
    note r = all_totals_detail_Inr [OF d]
    have "map fst rows = included st"
      by (subst r(1)) (simp add: Let_def comp_def)
    moreover have "\<forall>(p, sub, tax_share, tot) \<in> set rows.
            (\<exists>t. person_total st p = Inr t \<and> sub = round2 t)
          \<and> (0 < total_sub_of st \<longrightarrow> tax_share = sub / total_sub_of st * tax st)
          \<and> (total_sub_of st = 0 \<longrightarrow> tax_share = 0)
          \<and> tot = round2 (sub + tax_share)"
      using r(2) by (subst r(1)) (auto simp: Let_def total_sub_of_def rounded_subtotal_def)
    moreover have "all_totals st = Inr (map (\<lambda>(p, sub, tax_share, tot). (p, tot)) rows)"
      by (simp add: all_totals_def d)
    ultimately show ?thesis by blast
  qed
  have "person_total burger_state ''Ann'' = Inr 10000"
    "person_total burger_state ''Bo'' = Inr 5000"
    "all_totals_detail burger_state
       = Inr [(''Ann'', 10000, 1000, 11000), (''Bo'', 5000, 500, 5500)]"
    "all_totals burger_state = Inr [(''Ann'', 11000), (''Bo'', 5500)]"
    by (simp_all add: burger_state_def burger_start_def eval_defs)
  with general show ?thesis by blast
qed


theorem all_totals_tax_distribution_witness:
  "all_totals_detail burger_state
       = Inr [(''Ann'', 10000, 1000, 11000), (''Bo'', 5000, 500, 5500)]
   \<and> included burger_state = [''Ann'', ''Bo'']
   \<and> total_sub_of burger_state = 15000
   \<and> all_totals burger_state = Inr [(''Ann'', 11000), (''Bo'', 5500)]
   \<and> all_totals_detail water_state = Inr [(''A'', 0, 0, 0)]
   \<and> included water_state = [''A'']
   \<and> total_sub_of water_state = 0
   \<and> all_totals water_state = Inr [(''A'', 0)]"
proof -
  have d: "all_totals_detail burger_state
       = Inr [(''Ann'', 10000, 1000, 11000), (''Bo'', 5000, 500, 5500)]"
    by (simp add: burger_state_def burger_start_def eval_defs)
  have t: "total_sub_of burger_state = 15000"
    by (simp add: burger_state_def burger_start_def eval_defs)
  have d0: "all_totals_detail water_state = Inr [(''A'', 0, 0, 0)]"
    by (simp add: water_state_def eval_defs)
  have t0: "total_sub_of water_state = 0"
    by (simp add: water_state_def eval_defs)
  from all_totals_tax_distribution
         [of burger_state "[(''Ann'', 10000, 1000, 11000), (''Bo'', 5000, 500, 5500)]"]
       all_totals_tax_distribution [of water_state "[(''A'', 0, 0, 0)]"] d t d0 t0
  show ?thesis by simp
qed

text \<open>
  The claim as the spec has it fails where the tax share has more than two decimals: the
  total is rounded, so it is not the rounded subtotal plus the tax share.
\<close>

theorem all_totals_total_counterexample:
  "person_total cake_state ''A'' = Inr 1
   \<and> all_totals_detail cake_state
       = Inr [(''A'', 1, 1 / 3, 133 / 100), (''B'', 1, 1 / 3, 133 / 100),
              (''C'', 1, 1 / 3, 133 / 100)]
   \<and> all_totals cake_state = Inr [(''A'', 133 / 100), (''B'', 133 / 100), (''C'', 133 / 100)]
   \<and> (133 / 100 :: rat) \<noteq> round2 1 + 1 / 3"
  by code_simp


lemma any_share_iff: "any_share st p \<longleftrightarrow> (\<exists>q \<in> set (map snd (row_of st p)). q \<noteq> 0)"
  by (auto simp: any_share_def list_ex_iff)

lemma positive_any_share:
  "\<exists>q \<in> set (map snd (row_of st p)). 0 < q \<Longrightarrow> any_share st p"
  unfolding any_share_iff by force

lemma all_totals_keys:
  assumes "all_totals st = Inr totals"
  shows "map fst totals = included st"
proof -
  from assms obtain rows where d: "all_totals_detail st = Inr rows"
    and t: "totals = map (\<lambda>(p, sub, tax_share, tot). (p, tot)) rows"
    by (auto simp: all_totals_def split: sum.splits)
  show ?thesis
    unfolding t by (subst all_totals_detail_Inr(1) [OF d]) (simp add: Let_def comp_def)
qed


text \<open>
  Claim C5 (exclusion). When \<open>all_totals\<close> returns, a participant of \<open>people\<close> whose
  assigned quantities are all zero is not a key of the result; so is one whose quantities,
  none of them negative, have no positive one among them or sum to zero; and a
  participant with a positive quantity on some item is a key of the result.
\<close>

theorem all_totals_exclusion:
  assumes "all_totals st = Inr totals" and "p \<in> set (map fst (people st))"
  shows "((\<forall>q \<in> set (map snd (row_of st p)). q = 0) \<longrightarrow> p \<notin> set (map fst totals))
       \<and> ((\<forall>q \<in> set (map snd (row_of st p)). 0 \<le> q)
            \<and> (\<forall>q \<in> set (map snd (row_of st p)). \<not> 0 < q) \<longrightarrow> p \<notin> set (map fst totals))
       \<and> ((\<forall>q \<in> set (map snd (row_of st p)). 0 \<le> q)
            \<and> sum_list (map snd (row_of st p)) = 0 \<longrightarrow> p \<notin> set (map fst totals))
       \<and> ((\<exists>q \<in> set (map snd (row_of st p)). 0 < q) \<longrightarrow> p \<in> set (map fst totals))"
proof -
  have keys: "p \<in> set (map fst totals) \<longleftrightarrow> any_share st p"
    using all_totals_keys [OF assms(1)] assms(2) by (auto simp: included_def)
  have all_zero: "\<not> any_share st p" if "\<forall>q \<in> set (map snd (row_of st p)). q = 0"
    using that unfolding any_share_iff by blast
  have no_pos: "\<not> any_share st p"
    if "\<forall>q \<in> set (map snd (row_of st p)). 0 \<le> q"
      and "\<forall>q \<in> set (map snd (row_of st p)). \<not> 0 < q"
    using that unfolding any_share_iff by (auto simp: less_le)
  have zero_sum: "\<not> any_share st p"
    if "\<forall>q \<in> set (map snd (row_of st p)). 0 \<le> q"
      and "sum_list (map snd (row_of st p)) = 0"
    using that sum_list_nonneg_eq_0_iff [of "map snd (row_of st p)"]
    unfolding any_share_iff by auto
  from keys all_zero no_pos zero_sum positive_any_share [of st p] show ?thesis by blast
qed

theorem all_totals_exclusion_witness:
  "all_totals slice_state = Inr [(''A'', 15)]
   \<and> ''A'' \<in> set (map fst (people slice_state))
   \<and> ''B'' \<in> set (map fst (people slice_state))
   \<and> map snd (row_of slice_state ''A'') = [1]
   \<and> map snd (row_of slice_state ''B'') = [0]
   \<and> ''A'' \<in> set (map fst [(''A'', 15 :: rat)])
   \<and> ''B'' \<notin> set (map fst [(''A'', 15 :: rat)])"
proof -
  have t: "all_totals slice_state = Inr [(''A'', 15)]"
    by (simp add: slice_state_def pizza_state_def eval_defs)
  have a: "''A'' \<in> set (map fst (people slice_state))"
    and b: "''B'' \<in> set (map fst (people slice_state))"
    by (simp_all add: slice_state_def pizza_state_def)
  have ra: "map snd (row_of slice_state ''A'') = [1]"
    and rb: "map snd (row_of slice_state ''B'') = [0]"
    by (simp_all add: slice_state_def pizza_state_def row_of_def dict_get_def)
  from all_totals_exclusion [OF t a] all_totals_exclusion [OF t b] t a b ra rb
  show ?thesis by simp
qed

text \<open>
  Claim C9 (zero-tax identity). When the tax is 0, the total that \<open>all_totals\<close> returns
  for a participant is that participant's subtotal rounded to two decimals.
\<close>

theorem zero_tax_identity:
  assumes "all_totals st = Inr totals" and "tax st = 0" and "(p, tot) \<in> set totals"
  shows "\<exists>t. person_total st p = Inr t \<and> tot = round2 t"
proof -
  from assms(1) obtain rows where d: "all_totals_detail st = Inr rows"
    and t: "totals = map (\<lambda>(p, sub, tax_share, tot). (p, tot)) rows"
    by (auto simp: all_totals_def split: sum.splits)
  note r = all_totals_detail_Inr [OF d]
  from assms(3) have "p \<in> set (included st)" and "tot = round2 (rounded_subtotal st p)"
    unfolding t by (subst (asm) r(1), auto simp: Let_def assms(2))+
  with r(2) show ?thesis by (auto simp: rounded_subtotal_def round2_idem)
qed


theorem zero_tax_identity_witness:
  "all_totals slice_state = Inr [(''A'', 15)] \<and> tax slice_state = 0
   \<and> (''A'', 15) \<in> set [(''A'', 15 :: rat)]
   \<and> person_total slice_state ''A'' = Inr 15 \<and> (15 :: rat) = round2 15"
proof -
  have t: "all_totals slice_state = Inr [(''A'', 15)]"
    by (simp add: slice_state_def pizza_state_def eval_defs)
  have z: "tax slice_state = 0"
    by (simp add: slice_state_def pizza_state_def)
  have m: "(''A'', 15) \<in> set [(''A'', 15 :: rat)]" by simp
  have pt: "person_total slice_state ''A'' = Inr 15"
    by (simp add: slice_state_def pizza_state_def eval_defs)
  from zero_tax_identity [OF t z m] t z m pt show ?thesis by auto
qed


text \<open>
  Claim C10 (the tax share of \<open>build_email_body\<close> and of \<open>all_totals\<close>). When
  \<open>all_totals\<close> returns, a participant of \<open>people\<close> with a positive quantity has an
  iteration in its loop, and the \<open>tax_share\<close> of that iteration is the \<open>tax_share\<close> that
  \<open>build_email_body\<close> computes for the participant.
\<close>

theorem email_tax_share_agrees:
  assumes "all_totals_detail st = Inr rows"
    and "p \<in> set (map fst (people st))"
    and "\<exists>q \<in> set (map snd (row_of st p)). 0 < q"
  shows "(\<exists>sub tax_share tot. (p, sub, tax_share, tot) \<in> set rows)
       \<and> (\<forall>(p', sub, tax_share, tot) \<in> set rows.
             p' = p \<longrightarrow> email_tax_share st p = Inr tax_share)"
proof -
  note r = all_totals_detail_Inr [OF assms(1)]
  have inc: "p \<in> set (included st)"
    using assms(2) positive_any_share [OF assms(3)] by (simp add: included_def)
  then obtain t where t: "person_total st p = Inr t" using r(2) by auto
  have e: "email_tax_share st p
             = Inr (if 0 < total_sub_of st
                    then rounded_subtotal st p / total_sub_of st * tax st else 0)"
    by (simp add: email_tax_share_def t r(3) rounded_subtotal_def total_sub_of_def Let_def)
  have "\<exists>sub tax_share tot. (p, sub, tax_share, tot) \<in> set rows"
    using inc by (subst r(1)) (auto simp: Let_def)
  moreover have "\<forall>(p', sub, tax_share, tot) \<in> set rows.
             p' = p \<longrightarrow> email_tax_share st p = Inr tax_share"
    by (subst r(1)) (auto simp: Let_def e total_sub_of_def)
  ultimately show ?thesis by blast
qed


theorem email_tax_share_agrees_witness:
  "all_totals_detail burger_state
       = Inr [(''Ann'', 10000, 1000, 11000), (''Bo'', 5000, 500, 5500)]
   \<and> ''Ann'' \<in> set (map fst (people burger_state))
   \<and> (\<exists>q \<in> set (map snd (row_of burger_state ''Ann'')). 0 < q)
   \<and> email_tax_share burger_state ''Ann'' = Inr 1000"
proof -
  have d: "all_totals_detail burger_state
       = Inr [(''Ann'', 10000, 1000, 11000), (''Bo'', 5000, 500, 5500)]"
    by (simp add: burger_state_def burger_start_def eval_defs)
  have a: "''Ann'' \<in> set (map fst (people burger_state))"
    by (simp add: burger_state_def burger_start_def)
  have q: "\<exists>q \<in> set (map snd (row_of burger_state ''Ann'')). 0 < q"
    by (simp add: burger_state_def burger_start_def row_of_def dict_get_def)
  from email_tax_share_agrees [OF d a q] d a q show ?thesis by simp
qed


end
